theory Spec2Isabelle
  imports Complex_Main
begin

section \<open>Python values, errors and the file system\<close>

text \<open>
  The script \<^verbatim>\<open>detect.py\<close> reads a label map, runs a detector and post-processes the
  detections. Exceptions are values of \<open>py_error\<close>; a call that may raise returns
  \<open>py_error + 'a\<close>, with \<open>Inl\<close> for the exception.
\<close>

datatype py_error =
    FileNotFoundError
  | IsADirectoryError
  | PermissionError
  | KeyError string
  | IndexError
  | ZeroDivisionError
  | UnboundLocalError
  | Cv2Error

text \<open>
  A path of the file system names nothing, a regular file with its content, a directory, or
  an object the process has no permission on. Text is ASCII, one \<open>char\<close> per character,
  so that decoding a text file is the identity.
\<close>

datatype node = Regular string | Directory | Denied

type_synonym filesystem = "string \<Rightarrow> node option"

abbreviation LF :: char where "LF \<equiv> CHR 0x0A"



text \<open>
  \<^verbatim>\<open>for line in f\<close>: the lines of the text, each with its terminating \<^verbatim>\<open>\n\<close>; the last
  line has none when the text does not end in one.
\<close>

fun file_lines :: "string \<Rightarrow> string list" where
  "file_lines [] = []"
| "file_lines (c # cs) =
     (if c = LF then [LF] # file_lines cs
      else (case file_lines cs of [] \<Rightarrow> [[c]] | l # ls \<Rightarrow> (c # l) # ls))"



section \<open>The name-table loader\<close>



section \<open>Tensors, predictions and the command line\<close>

text \<open>
  A box is a row \<open>(x1, y1, x2, y2)\<close> of the \<open>boxes\<close> tensor. Tensor entries and the
  elapsed time are floating-point numbers in the script; the model computes with exact
  rationals. A prediction is a dict whose keys are among \<^verbatim>\<open>boxes\<close>, \<^verbatim>\<open>scores\<close> and
  \<^verbatim>\<open>labels\<close>: a missing key is \<open>None\<close>.
\<close>

type_synonym box = "rat \<times> rat \<times> rat \<times> rat"

record pred_dict =
  boxes :: "box list option"
  scores :: "rat list option"
  labels :: "int list option"

text \<open>\<^verbatim>\<open>len(pred)\<close> on a dict counts its keys, not the detections.\<close>

definition dict_len :: "pred_dict \<Rightarrow> nat" where
  "dict_len p = (if boxes p = None then 0 else 1) + (if scores p = None then 0 else 1)
                + (if labels p = None then 0 else 1)"

record args =
  save_img :: bool
  save_txt :: bool
  output_dir :: string
  names :: "string list"
  colors :: "int list list"

text \<open>
  What the script calls and does not define: \<^verbatim>\<open>%\<close>-formatting of a number under a
  conversion (\<^verbatim>\<open>%g\<close>, \<^verbatim>\<open>%.2f\<close>, \<^verbatim>\<open>%.3f\<close>), the image codecs behind \<^verbatim>\<open>cv2.imread\<close>
  and \<^verbatim>\<open>cv2.imwrite\<close> (the encoder is chosen by the file name; \<open>None\<close> when there is
  none), and the drawing done by \<^verbatim>\<open>plot_one_box\<close>.
\<close>

record 'img library =
  fmt :: "string \<Rightarrow> rat \<Rightarrow> string"
  imdecode :: "string \<Rightarrow> 'img option"
  imencode :: "string \<Rightarrow> 'img \<Rightarrow> string option"
  draw_box :: "box \<Rightarrow> 'img \<Rightarrow> string \<Rightarrow> int list \<Rightarrow> 'img"

text \<open>List indexing of Python: a negative index counts from the end, out of range raises.\<close>

definition py_index :: "'a list \<Rightarrow> int \<Rightarrow> py_error + 'a" where
  "py_index xs i =
     (if 0 \<le> i \<and> i < int (length xs) then Inr (xs ! nat i)
      else if i < 0 \<and> 0 \<le> i + int (length xs) then Inr (xs ! nat (i + int (length xs)))
      else Inl IndexError)"

text \<open>\<^verbatim>\<open>torch.round\<close> rounds a half to the even neighbour.\<close>

definition round_half_even :: "rat \<Rightarrow> rat" where
  "round_half_even x =
     (let f = \<lfloor>x\<rfloor>; d = x - of_int f
      in if d < 1 / 2 then of_int f
         else if 1 / 2 < d then of_int (f + 1)
         else if even f then of_int f else of_int (f + 1))"

definition tensor_round :: "box list \<Rightarrow> box list" where
  "tensor_round bs =
     map (\<lambda>(x1, y1, x2, y2).
            (round_half_even x1, round_half_even y1, round_half_even x2, round_half_even y2)) bs"

text \<open>\<^verbatim>\<open>box_convert(xyxy, in_fmt="xyxy", out_fmt="cxcywh").tolist()\<close> of torchvision.\<close>

definition box_convert :: "box \<Rightarrow> rat list" where
  "box_convert xyxy =
     (case xyxy of (x1, y1, x2, y2) \<Rightarrow> [(x1 + x2) / 2, (y1 + y2) / 2, x2 - x1, y2 - y1])"

text \<open>\<^verbatim>\<open>labels.unique()\<close>: the distinct labels in ascending order.\<close>

definition unique :: "int list \<Rightarrow> int list" where
  "unique ls = sort (remdups ls)"

section \<open>Paths\<close>

text \<open>
  \<^verbatim>\<open>pathlib.Path\<close> on POSIX: a path is its anchor (empty, \<^verbatim>\<open>/\<close> or \<^verbatim>\<open>//\<close>) and its
  components; empty components and \<^verbatim>\<open>.\<close> are dropped when a string is parsed.
\<close>

datatype pure_path = PurePath (anchor: string) (parts: "string list")

fun split_sep :: "string \<Rightarrow> string list" where
  "split_sep [] = [[]]"
| "split_sep (c # cs) =
     (if c = CHR ''/'' then [] # split_sep cs
      else (case split_sep cs of [] \<Rightarrow> [[c]] | w # ws \<Rightarrow> (c # w) # ws))"

definition Path :: "string \<Rightarrow> pure_path" where
  "Path s =
     (let stripped = dropWhile (\<lambda>c. c = CHR ''/'') s;
          k = length s - length stripped;
          rt = (if k = 0 then [] else if k = 2 then ''//'' else ''/'')
      in PurePath rt (filter (\<lambda>x. x \<noteq> [] \<and> x \<noteq> ''.'') (split_sep stripped)))"

definition path_name :: "pure_path \<Rightarrow> string" where
  "path_name p = (case parts p of [] \<Rightarrow> [] | _ # _ \<Rightarrow> last (parts p))"

text \<open>\<^verbatim>\<open>name.rfind('.')\<close>: the index of the last dot, \<open>-1\<close> when there is none.\<close>

definition rfind_dot :: "string \<Rightarrow> int" where
  "rfind_dot s =
     (if CHR ''.'' \<in> set s
      then int (length s) - 1 - int (length (takeWhile (\<lambda>c. c \<noteq> CHR ''.'') (rev s)))
      else - 1)"

definition path_stem :: "pure_path \<Rightarrow> string" where
  "path_stem p =
     (let name = path_name p; i = rfind_dot name
      in if 0 < i \<and> i < int (length name) - 1 then take (nat i) name else name)"

definition joinpath :: "pure_path \<Rightarrow> string \<Rightarrow> pure_path" where
  "joinpath p s =
     (let q = Path s
      in if anchor q \<noteq> [] then q else PurePath (anchor p) (parts p @ parts q))"

fun join_sep :: "string list \<Rightarrow> string" where
  "join_sep [] = []"
| "join_sep [x] = x"
| "join_sep (x # y # ys) = x @ ''/'' @ join_sep (y # ys)"

definition path_str :: "pure_path \<Rightarrow> string" where
  "path_str p = (let s = anchor p @ join_sep (parts p) in if s = [] then ''.'' else s)"


section \<open>Writing files and images\<close>

text \<open>
  \<^verbatim>\<open>with open(p, 'a') as f: f.write(s)\<close>: the file is created when the path names
  nothing (the output directory exists: the script creates it before \<^verbatim>\<open>main\<close>), and
  the text goes after the content it has.
\<close>

definition open_append_write :: "filesystem \<Rightarrow> string \<Rightarrow> string \<Rightarrow> py_error + filesystem" where
  "open_append_write fs p s =
     (case fs p of
        None \<Rightarrow> Inr (fs(p \<mapsto> Regular s))
      | Some (Regular c) \<Rightarrow> Inr (fs(p \<mapsto> Regular (c @ s)))
      | Some Directory \<Rightarrow> Inl IsADirectoryError
      | Some Denied \<Rightarrow> Inl PermissionError)"

text \<open>\<^verbatim>\<open>cv2.imread\<close> gives \<^verbatim>\<open>None\<close> for whatever it cannot read or decode.\<close>

definition imread :: "'img library \<Rightarrow> filesystem \<Rightarrow> string \<Rightarrow> 'img option" where
  "imread lib fs p = (case fs p of Some (Regular c) \<Rightarrow> imdecode lib c | _ \<Rightarrow> None)"

text \<open>
  \<^verbatim>\<open>cv2.imwrite\<close> raises on an empty image and on a file name without encoder; when the
  file cannot be opened it returns \<^verbatim>\<open>False\<close>, which the script ignores.
\<close>

definition imwrite :: "'img library \<Rightarrow> filesystem \<Rightarrow> string \<Rightarrow> 'img option \<Rightarrow> py_error + filesystem" where
  "imwrite lib fs p im =
     (case im of
        None \<Rightarrow> Inl Cv2Error
      | Some i \<Rightarrow>
          (case imencode lib p i of
             None \<Rightarrow> Inl Cv2Error
           | Some bytes \<Rightarrow>
               (case fs p of
                  Some Directory \<Rightarrow> Inr fs
                | Some Denied \<Rightarrow> Inr fs
                | _ \<Rightarrow> Inr (fs(p \<mapsto> Regular bytes)))))"

text \<open>
  Modelled from the spec: \<^verbatim>\<open>plot_one_box\<close> of \<^verbatim>\<open>utils.image_utils\<close> is not among the
  sources; it "draws the box and label onto the image", in place. Drawing on \<^verbatim>\<open>None\<close>
  raises in OpenCV.
\<close>

definition plot_one_box ::
  "'img library \<Rightarrow> box \<Rightarrow> 'img option \<Rightarrow> string \<Rightarrow> int list \<Rightarrow> py_error + 'img option" where
  "plot_one_box lib x im label color =
     (case im of None \<Rightarrow> Inl Cv2Error | Some i \<Rightarrow> Inr (Some (draw_box lib x i label color)))"

section \<open>The overlay step\<close>

text \<open>
  The state of \<^verbatim>\<open>overlay_boxes\<close>: the file system and the lines printed so far, and
  the local variables that live across statements: \<open>img\<close>, \<open>det_logs\<close> and the triple
  \<open>boxes, scores, labels\<close>, which is unbound (\<open>None\<close>) until a prediction binds it. A
  statement ends normally or raises; either way the effects it had so far stay.
\<close>

record 'img state =
  files :: filesystem
  stdout :: "string list"
  img :: "'img option"
  det_logs :: string
  locals :: "(box list \<times> rat list \<times> int list) option"

datatype 'img outcome = Normal "'img state" | Raised py_error "'img state"

fun state_of :: "'img outcome \<Rightarrow> 'img state" where
  "state_of (Normal st) = st"
| "state_of (Raised e st) = st"

fun then_do :: "'img outcome \<Rightarrow> ('img state \<Rightarrow> 'img outcome) \<Rightarrow> 'img outcome" where
  "then_do (Normal st) f = f st"
| "then_do (Raised e st) f = Raised e st"

text \<open>
  \<^verbatim>\<open>
  for c in labels.unique():
      n = (labels == c).sum()  # detections per class
      det_logs += '%g %ss, ' % (n, args.names[int(c)])  # add to string
  \<close>
\<close>

fun summary_loop ::
  "'img library \<Rightarrow> args \<Rightarrow> int list \<Rightarrow> int list \<Rightarrow> string \<Rightarrow> py_error + string" where
  "summary_loop lib a lbls [] logs = Inr logs"
| "summary_loop lib a lbls (c # cs) logs =
     (let n = count_list lbls c
      in case py_index (names a) c of
           Inl e \<Rightarrow> Inl e
         | Inr nm \<Rightarrow>
             summary_loop lib a lbls cs (logs @ fmt lib ''%g'' (of_nat n) @ '' '' @ nm @ ''s, ''))"

text \<open>\<^verbatim>\<open>('%g ' * 5 + '\n') % (cls_name, *cxcywh)\<close>\<close>

definition label_format :: "'img library \<Rightarrow> int \<Rightarrow> rat list \<Rightarrow> string" where
  "label_format lib cls_name cxcywh =
     concat (map (\<lambda>x. fmt lib ''%g'' x @ '' '') (of_int cls_name # cxcywh)) @ [LF]"

text \<open>\<^verbatim>\<open>args.colors[int(cls_name) % len(args.colors)]\<close>\<close>

definition color_lookup :: "args \<Rightarrow> int \<Rightarrow> py_error + int list" where
  "color_lookup a cls_name =
     (if length (colors a) = 0 then Inl ZeroDivisionError
      else py_index (colors a) (cls_name mod int (length (colors a))))"

text \<open>\<^verbatim>\<open>args.names[int(cls_name)]\<close>\<close>

definition name_lookup :: "args \<Rightarrow> int \<Rightarrow> py_error + string" where
  "name_lookup a cls_name = py_index (names a) cls_name"

text \<open>
  The body of the loop over \<^verbatim>\<open>zip(boxes, scores, labels)\<close>, for one detection:
  \<^verbatim>\<open>
  if args.save_txt:  # Write to file
      cxcywh = box_convert(xyxy, in_fmt="xyxy", out_fmt="cxcywh").tolist()
      with open(f'{txt_path}.txt', 'a') as f:
          f.write(('%g ' * 5 + '\n') % (cls_name, *cxcywh))  # label format
  if args.save_img:  # Add bbox to image
      label = '%s %.2f' % (args.names[int(cls_name)], conf)
      plot_one_box(xyxy, img, label=label,
                   color=args.colors[int(cls_name) % len(args.colors)], line_thickness=3)
  \<close>
\<close>

definition write_txt ::
  "'img library \<Rightarrow> args \<Rightarrow> string \<Rightarrow> box \<Rightarrow> int \<Rightarrow> 'img state \<Rightarrow> 'img outcome" where
  "write_txt lib a txt_path xyxy cls_name st =
     (if save_txt a then
        (let cxcywh = box_convert xyxy
         in case open_append_write (files st) (txt_path @ ''.txt'')
                   (label_format lib cls_name cxcywh) of
              Inl e \<Rightarrow> Raised e st
            | Inr fs' \<Rightarrow> Normal (st\<lparr>files := fs'\<rparr>))
      else Normal st)"

definition add_bbox ::
  "'img library \<Rightarrow> args \<Rightarrow> box \<Rightarrow> rat \<Rightarrow> int \<Rightarrow> 'img state \<Rightarrow> 'img outcome" where
  "add_bbox lib a xyxy conf cls_name st =
     (if save_img a then
        (case name_lookup a cls_name of
           Inl e \<Rightarrow> Raised e st
         | Inr nm \<Rightarrow>
             (let label = nm @ '' '' @ fmt lib ''%.2f'' conf
              in case color_lookup a cls_name of
                   Inl e \<Rightarrow> Raised e st
                 | Inr color \<Rightarrow>
                     (case plot_one_box lib xyxy (img st) label color of
                        Inl e \<Rightarrow> Raised e st
                      | Inr im' \<Rightarrow> Normal (st\<lparr>img := im'\<rparr>))))
      else Normal st)"

fun write_results ::
  "'img library \<Rightarrow> args \<Rightarrow> string \<Rightarrow> (box \<times> rat \<times> int) list \<Rightarrow> 'img state \<Rightarrow> 'img outcome" where
  "write_results lib a txt_path [] st = Normal st"
| "write_results lib a txt_path ((xyxy, conf, cls_name) # rest) st =
     then_do (then_do (write_txt lib a txt_path xyxy cls_name st)
                      (add_bbox lib a xyxy conf cls_name))
             (write_results lib a txt_path rest)"

text \<open>
  The branch \<^verbatim>\<open>if pred is not None and len(pred) > 0\<close>, for a dict \<open>p\<close>:
  \<^verbatim>\<open>
  boxes, scores, labels = pred['boxes'].round(), pred['scores'], pred['labels']
  \<close>
  then the summary and the loop over the detections.
\<close>

definition process_pred ::
  "'img library \<Rightarrow> args \<Rightarrow> string \<Rightarrow> pred_dict \<Rightarrow> 'img state \<Rightarrow> 'img outcome" where
  "process_pred lib a txt_path p st =
     (case boxes p of
        None \<Rightarrow> Raised (KeyError ''boxes'') st
      | Some b \<Rightarrow>
     (case scores p of
        None \<Rightarrow> Raised (KeyError ''scores'') st
      | Some s \<Rightarrow>
     (case labels p of
        None \<Rightarrow> Raised (KeyError ''labels'') st
      | Some l \<Rightarrow>
          (let st1 = st\<lparr>locals := Some (tensor_round b, s, l)\<rparr>
           in case summary_loop lib a l (unique l) (det_logs st1) of
                Inl e \<Rightarrow> Raised e st1
              | Inr logs \<Rightarrow>
                  write_results lib a txt_path (zip (tensor_round b) (zip s l))
                    (st1\<lparr>det_logs := logs\<rparr>)))))"

text \<open>The two paths of an iteration, as the strings the file operations receive.\<close>

definition save_path :: "args \<Rightarrow> string \<Rightarrow> pure_path" where
  "save_path a path = joinpath (Path (output_dir a)) (path_name (Path path))"

definition txt_path :: "args \<Rightarrow> string \<Rightarrow> pure_path" where
  "txt_path a path = joinpath (Path (output_dir a)) (path_stem (Path path))"

definition img_file :: "args \<Rightarrow> string \<Rightarrow> string" where
  "img_file a path = path_str (save_path a path)"

definition txt_file :: "args \<Rightarrow> string \<Rightarrow> string" where
  "txt_file a path = path_str (txt_path a path) @ ''.txt''"

text \<open>
  One iteration of \<^verbatim>\<open>for i, pred in enumerate(detections)\<close>: the branch, then
  \<^verbatim>\<open>
  print('%sDone. (%.3fs)' % (det_logs, time_consume))
  if args.save_img:
      cv2.imwrite(str(save_path), img)
  \<close>
\<close>

definition print_done :: "'img library \<Rightarrow> rat \<Rightarrow> 'img state \<Rightarrow> 'img outcome" where
  "print_done lib time_consume st =
     Normal (st\<lparr>stdout := stdout st
               @ [det_logs st @ ''Done. ('' @ fmt lib ''%.3f'' time_consume @ ''s)'']\<rparr>)"

definition save_results :: "'img library \<Rightarrow> args \<Rightarrow> string \<Rightarrow> 'img state \<Rightarrow> 'img outcome" where
  "save_results lib a path st =
     (if save_img a then
        (case imwrite lib (files st) (path_str (save_path a path)) (img st) of
           Inl e \<Rightarrow> Raised e st
         | Inr fs' \<Rightarrow> Normal (st\<lparr>files := fs'\<rparr>))
      else Normal st)"

definition overlay_pred ::
  "'img library \<Rightarrow> string \<Rightarrow> rat \<Rightarrow> args \<Rightarrow> pred_dict option \<Rightarrow> 'img state \<Rightarrow> 'img outcome" where
  "overlay_pred lib path time_consume a pred st =
     (let st0 = st\<lparr>det_logs := []\<rparr>
      in then_do
           (then_do
              (case pred of
                 None \<Rightarrow> Normal st0
               | Some p \<Rightarrow>
                   if 0 < dict_len p
                   then process_pred lib a (path_str (txt_path a path)) p st0
                   else Normal st0)
              (print_done lib time_consume))
           (save_results lib a path))"

fun overlay_loop ::
  "'img library \<Rightarrow> string \<Rightarrow> rat \<Rightarrow> args \<Rightarrow> pred_dict option list \<Rightarrow> 'img state \<Rightarrow> 'img outcome" where
  "overlay_loop lib path time_consume a [] st = Normal st"
| "overlay_loop lib path time_consume a (pred # rest) st =
     then_do (overlay_pred lib path time_consume a pred st)
             (overlay_loop lib path time_consume a rest)"

text \<open>
  \<^verbatim>\<open>overlay_boxes(detections, path, time_consume, args)\<close> on a file system: the final
  state, and the exception or the value of
  \<^verbatim>\<open>return (boxes.tolist(), scores.tolist(), labels.tolist())\<close>, which raises when the
  three names were never bound.
\<close>

definition initial_state :: "'img library \<Rightarrow> string \<Rightarrow> args \<Rightarrow> filesystem \<Rightarrow> 'img state" where
  "initial_state lib path a fs =
     \<lparr>files = fs, stdout = [],
      img = (if save_img a then imread lib fs path else None),
      det_logs = [], locals = None\<rparr>"

definition overlay_boxes ::
  "'img library \<Rightarrow> pred_dict option list \<Rightarrow> string \<Rightarrow> rat \<Rightarrow> args \<Rightarrow> filesystem
     \<Rightarrow> 'img state \<times> (py_error + box list \<times> rat list \<times> int list)" where
  "overlay_boxes lib detections path time_consume a fs =
     (case overlay_loop lib path time_consume a detections (initial_state lib path a fs) of
        Raised e st \<Rightarrow> (st, Inl e)
      | Normal st \<Rightarrow>
          (case locals st of
             None \<Rightarrow> (st, Inl UnboundLocalError)
           | Some r \<Rightarrow> (st, Inr r)))"

section \<open>A sample library\<close>

text \<open>
  Concrete stand-ins for the external functions, to run the model on sample inputs:
  numbers print as the decimal of their integer part followed by \<^verbatim>\<open>.5\<close> for a half,
  an image file is one that starts with \<^verbatim>\<open>IMG\<close>, and drawing appends the label in
  brackets.
\<close>

function show_nat :: "nat \<Rightarrow> string" where
  "show_nat n =
     (if n < 10 then [char_of (48 + n)] else show_nat (n div 10) @ [char_of (48 + n mod 10)])"
  by pat_completeness auto
termination
  by (relation "measure id") auto

declare show_nat.simps [simp del]

definition sample_fmt :: "string \<Rightarrow> rat \<Rightarrow> string" where
  "sample_fmt conv x =
     (if x < 0 then ''-'' else []) @ show_nat (nat \<lfloor>\<bar>x\<bar>\<rfloor>)
       @ (if \<bar>x\<bar> - of_int \<lfloor>\<bar>x\<bar>\<rfloor> = 0 then [] else ''.5'')"

definition sample_lib :: "string library" where
  "sample_lib =
     \<lparr>fmt = sample_fmt,
      imdecode = (\<lambda>c. if take 3 c = ''IMG'' then Some c else None),
      imencode = (\<lambda>p i. Some i),
      draw_box = (\<lambda>x i label color. i @ ''['' @ label @ '']'')\<rparr>"

text \<open>Sample inputs: the command line, a prediction of three detections, a file system.\<close>

definition sample_args :: args where
  "sample_args =
     \<lparr>save_img = True, save_txt = True, output_dir = ''out'',
      names = [''person'', ''tie''], colors = [[255, 0, 0], [0, 255, 0]]\<rparr>"

definition sample_pred :: pred_dict where
  "sample_pred =
     \<lparr>boxes = Some [(1 / 2, 3 / 2, 10, 20), (5 / 2, 0, 7, 9), (0, 0, 3, 3)],
      scores = Some [1 / 2, 1 / 2, 1 / 2], labels = Some [1, 0, 1]\<rparr>"

definition sample_fs :: filesystem where
  "sample_fs =
     [''zidane.jpg'' \<mapsto> Regular ''IMG'', ''out'' \<mapsto> Directory,
      ''out/zidane.txt'' \<mapsto> Regular (''0 1 1 2 2 '' @ [LF])]"

text \<open>A statement that ends normally.\<close>

definition completes :: "'img outcome \<Rightarrow> bool" where
  "completes out = (case out of Normal st \<Rightarrow> True | Raised e st \<Rightarrow> False)"

section \<open>Notions used in the statements\<close>

text \<open>The text a path holds: the content of a regular file, nothing otherwise.\<close>

definition text_of :: "filesystem \<Rightarrow> string \<Rightarrow> string" where
  "text_of fs p = (case fs p of Some (Regular c) \<Rightarrow> c | _ \<Rightarrow> [])"

text \<open>The test \<^verbatim>\<open>pred is not None and len(pred) > 0\<close> of the loop.\<close>

definition is_nonempty :: "pred_dict option \<Rightarrow> bool" where
  "is_nonempty pred = (case pred of None \<Rightarrow> False | Some p \<Rightarrow> 0 < dict_len p)"

text \<open>
  The detections of a prediction, as \<^verbatim>\<open>zip(boxes, scores, labels)\<close> yields them after
  the rounding, and the label lines of a list of detections, of a prediction.
\<close>

definition detections_of :: "pred_dict \<Rightarrow> (box \<times> rat \<times> int) list" where
  "detections_of p =
     (case boxes p of None \<Rightarrow> [] | Some b \<Rightarrow>
      (case scores p of None \<Rightarrow> [] | Some s \<Rightarrow>
       (case labels p of None \<Rightarrow> [] | Some l \<Rightarrow> zip (tensor_round b) (zip s l))))"

definition label_lines :: "'img library \<Rightarrow> (box \<times> rat \<times> int) list \<Rightarrow> string" where
  "label_lines lib dets =
     concat (map (\<lambda>(xyxy, conf, cls_name). label_format lib cls_name (box_convert xyxy)) dets)"

definition pred_lines :: "'img library \<Rightarrow> pred_dict option \<Rightarrow> string" where
  "pred_lines lib pred =
     (case pred of
        None \<Rightarrow> []
      | Some p \<Rightarrow> if 0 < dict_len p then label_lines lib (detections_of p) else [])"

text \<open>The text of file \<open>f\<close> in state \<open>t\<close> continues the one in state \<open>s\<close>.\<close>

definition extends :: "string \<Rightarrow> 'img state \<Rightarrow> 'img state \<Rightarrow> bool" where
  "extends f s t = (\<exists>w. text_of (files t) f = text_of (files s) f @ w)"

text \<open>The variables the loop over the detections leaves alone.\<close>

definition same_vars :: "'img state \<Rightarrow> 'img state \<Rightarrow> bool" where
  "same_vars s t = (stdout t = stdout s \<and> det_logs t = det_logs s \<and> locals t = locals s)"


text \<open>What a prediction with all three keys binds \<open>boxes, scores, labels\<close> to.\<close>

definition bound_by :: "pred_dict option \<Rightarrow> (box list \<times> rat list \<times> int list) option" where
  "bound_by pred =
     (case pred of None \<Rightarrow> None | Some p \<Rightarrow>
      (case boxes p of None \<Rightarrow> None | Some b \<Rightarrow>
       (case scores p of None \<Rightarrow> None | Some s \<Rightarrow>
        (case labels p of None \<Rightarrow> None | Some l \<Rightarrow> Some (tensor_round b, s, l)))))"






section \<open>Properties of the loader\<close>


lemma concat_file_lines: "concat (file_lines f) = f"
  by (induction f) (auto split: list.splits)

lemma file_lines_nonempty: "l \<in> set (file_lines f) \<Longrightarrow> l \<noteq> []"
  by (induction f arbitrary: l) (auto split: list.splits if_splits)








section \<open>Properties of the overlay step\<close>

lemma completes_Normal: "completes out \<Longrightarrow> out = Normal (state_of out)"
  by (cases out) (simp_all add: completes_def)

lemma show_nat_no_LF: "LF \<notin> set (show_nat n)"
proof (induction n rule: show_nat.induct)
  case (1 n)
  have d: "char_of (48 + k) \<noteq> LF" if "k < 10" for k :: nat
  proof
    assume "char_of (48 + k) = LF"
    then have "of_char (char_of (48 + k)) = (of_char LF :: nat)" by simp
    with that show False by (simp add: of_char_of)
  qed
  show ?case
  proof (cases "n < 10")
    case True
    with d [of n] show ?thesis by (subst show_nat.simps) auto
  next
    case False
    with d [of "n mod 10"] 1 show ?thesis by (subst show_nat.simps) auto
  qed
qed

lemma sample_fmt_no_LF: "\<forall>x. LF \<notin> set (fmt sample_lib conv x)"
  by (simp add: sample_lib_def sample_fmt_def show_nat_no_LF)

lemma then_do_Normal_iff:
  "then_do out f = Normal st' \<longleftrightarrow> (\<exists>s. out = Normal s \<and> f s = Normal st')"
  by (cases out) auto

lemma then_do_rel:
  assumes "R st (state_of out)" and "\<And>s. R s (state_of (f s))"
    and "\<And>x y z. R x y \<Longrightarrow> R y z \<Longrightarrow> R x z"
  shows "R st (state_of (then_do out f))"
  using assms by (cases out) auto

lemma text_of_append:
  "open_append_write fs p s = Inr fs' \<Longrightarrow> text_of fs' p = text_of fs p @ s"
  by (auto simp: open_append_write_def text_of_def split: option.splits node.splits)

lemma append_other:
  "open_append_write fs p s = Inr fs' \<Longrightarrow> q \<noteq> p \<Longrightarrow> fs' q = fs q"
  by (auto simp: open_append_write_def split: option.splits node.splits)

lemma imwrite_other:
  "imwrite lib fs p im = Inr fs' \<Longrightarrow> q \<noteq> p \<Longrightarrow> fs' q = fs q"
  by (auto simp: imwrite_def split: option.splits node.splits)

lemma write_txt_keeps:
  "files (state_of (write_txt lib a tp xyxy c st)) q = files st q" if "q \<noteq> tp @ ''.txt'' \<or> \<not> save_txt a"
  using that by (auto simp: write_txt_def Let_def append_other split: sum.splits)

lemma add_bbox_files: "files (state_of (add_bbox lib a xyxy conf c st)) = files st"
  by (auto simp: add_bbox_def Let_def split: sum.splits)

lemma write_results_keeps:
  "q \<noteq> tp @ ''.txt'' \<or> \<not> save_txt a \<Longrightarrow> files (state_of (write_results lib a tp dets st)) q = files st q"
proof (induction dets arbitrary: st)
  case Nil
  then show ?case by simp
next
  case (Cons d dets)
  obtain xyxy conf c where d: "d = (xyxy, conf, c)" by (cases d) auto
  show ?case unfolding d write_results.simps
    apply (rule then_do_rel [where R = "\<lambda>s t. files t q = files s q"])
      apply (rule then_do_rel [where R = "\<lambda>s t. files t q = files s q"])
    using Cons.prems apply (simp add: write_txt_keeps)
       apply (simp add: add_bbox_files)
      apply simp
    using Cons apply simp
    apply simp
    done
qed

lemma process_pred_keeps:
  "q \<noteq> tp @ ''.txt'' \<or> \<not> save_txt a \<Longrightarrow> files (state_of (process_pred lib a tp p st)) q = files st q"
  by (auto simp: process_pred_def Let_def write_results_keeps split: option.splits sum.splits)

lemma save_results_keeps:
  "q \<noteq> img_file a path \<or> \<not> save_img a \<Longrightarrow> files (state_of (save_results lib a path st)) q = files st q"
  by (auto simp: save_results_def img_file_def imwrite_other split: sum.splits)

lemma print_done_files: "files (state_of (print_done lib t st)) = files st"
  by (simp add: print_done_def)

lemma overlay_pred_keeps:
  assumes "q \<noteq> txt_file a path \<or> \<not> save_txt a" and "q \<noteq> img_file a path \<or> \<not> save_img a"
  shows "files (state_of (overlay_pred lib path t a pred st)) q = files st q"
proof -
  let ?R = "\<lambda>s t. files t q = files (s :: 'a state) q"
  have "?R (st\<lparr>det_logs := []\<rparr>) (state_of (overlay_pred lib path t a pred st))"
    unfolding overlay_pred_def Let_def
    apply (rule then_do_rel [where R = ?R])
      apply (rule then_do_rel [where R = ?R])
    using assms(1) apply (auto simp: process_pred_keeps txt_file_def split: option.splits)[1]
       apply (simp add: print_done_files)
      apply simp
    using assms(2) apply (simp add: save_results_keeps)
    apply simp
    done
  then show ?thesis by simp
qed

lemma overlay_loop_keeps:
  assumes "q \<noteq> txt_file a path \<or> \<not> save_txt a" and "q \<noteq> img_file a path \<or> \<not> save_img a"
  shows "files (state_of (overlay_loop lib path t a dets st)) q = files st q"
proof (induction dets arbitrary: st)
  case Nil
  then show ?case by simp
next
  case (Cons pred dets)
  show ?case unfolding overlay_loop.simps
    apply (rule then_do_rel [where R = "\<lambda>s t. files t q = files s q"])
    using assms apply (simp add: overlay_pred_keeps)
    using Cons apply simp
    apply simp
    done
qed

lemma overlay_boxes_state:
  "fst (overlay_boxes lib dets path t a fs) = state_of (overlay_loop lib path t a dets (initial_state lib path a fs))"
  by (auto simp: overlay_boxes_def split: outcome.splits option.splits)

lemma text_of_cong: "fs' q = fs q \<Longrightarrow> text_of fs' q = text_of fs q"
  by (simp add: text_of_def)

lemma write_txt_Normal:
  assumes "write_txt lib a tp xyxy c st = Normal st'" and "save_txt a"
  shows "text_of (files st') (tp @ ''.txt'')
           = text_of (files st) (tp @ ''.txt'') @ label_format lib c (box_convert xyxy)"
  using assms by (auto simp: write_txt_def Let_def text_of_append split: sum.splits)

lemma add_bbox_Normal_files: "add_bbox lib a xyxy conf c st = Normal st' \<Longrightarrow> files st' = files st"
  using add_bbox_files [of lib a xyxy conf c st] by simp

lemma write_results_text:
  assumes "save_txt a"
  shows "write_results lib a tp dets st = Normal st'
     \<Longrightarrow> text_of (files st') (tp @ ''.txt'') = text_of (files st) (tp @ ''.txt'') @ label_lines lib dets"
proof (induction dets arbitrary: st)
  case Nil
  then show ?case by (simp add: label_lines_def)
next
  case (Cons d dets)
  obtain xyxy conf c where d: "d = (xyxy, conf, c)" by (cases d) auto
  from Cons.prems obtain s1 s2 where
    1: "write_txt lib a tp xyxy c st = Normal s1" and
    2: "add_bbox lib a xyxy conf c s1 = Normal s2" and
    3: "write_results lib a tp dets s2 = Normal st'"
    unfolding d by (auto simp: then_do_Normal_iff)
  from write_txt_Normal [OF 1 assms] add_bbox_Normal_files [OF 2] Cons.IH [OF 3]
  show ?case by (simp add: d label_lines_def)
qed

lemma process_pred_Normal:
  assumes "process_pred lib a tp p st = Normal st'"
  shows "\<exists>b s l logs. boxes p = Some b \<and> scores p = Some s \<and> labels p = Some l
           \<and> summary_loop lib a l (unique l) (det_logs st) = Inr logs
           \<and> write_results lib a tp (zip (tensor_round b) (zip s l))
                (st\<lparr>locals := Some (tensor_round b, s, l), det_logs := logs\<rparr>) = Normal st'"
  using assms by (auto simp: process_pred_def Let_def split: option.splits sum.splits)

lemma process_pred_text:
  assumes "process_pred lib a tp p st = Normal st'" and "save_txt a"
  shows "text_of (files st') (tp @ ''.txt'')
           = text_of (files st) (tp @ ''.txt'') @ label_lines lib (detections_of p)"
proof -
  from process_pred_Normal [OF assms(1)] obtain b s l logs where
    k: "boxes p = Some b" "scores p = Some s" "labels p = Some l" and
    w: "write_results lib a tp (zip (tensor_round b) (zip s l))
          (st\<lparr>locals := Some (tensor_round b, s, l), det_logs := logs\<rparr>) = Normal st'"
    by blast
  from write_results_text [OF assms(2) w] k show ?thesis
    by (simp add: detections_of_def)
qed

lemma overlay_pred_Normal:
  assumes "overlay_pred lib path t a pred st = Normal st'"
  shows "\<exists>s1 s2. (if is_nonempty pred
                   then process_pred lib a (path_str (txt_path a path)) (the pred) (st\<lparr>det_logs := []\<rparr>)
                   else Normal (st\<lparr>det_logs := []\<rparr>)) = Normal s1
           \<and> print_done lib t s1 = Normal s2 \<and> save_results lib a path s2 = Normal st'"
  using assms
  by (auto simp: overlay_pred_def Let_def then_do_Normal_iff is_nonempty_def split: option.splits)

lemma overlay_pred_text:
  assumes "overlay_pred lib path t a pred st = Normal st'" and "save_txt a"
    and "\<not> save_img a \<or> img_file a path \<noteq> txt_file a path"
  shows "text_of (files st') (txt_file a path)
           = text_of (files st) (txt_file a path) @ pred_lines lib pred"
proof -
  from overlay_pred_Normal [OF assms(1)] obtain s1 s2 where
    1: "(if is_nonempty pred
         then process_pred lib a (path_str (txt_path a path)) (the pred) (st\<lparr>det_logs := []\<rparr>)
         else Normal (st\<lparr>det_logs := []\<rparr>)) = Normal s1" and
    2: "print_done lib t s1 = Normal s2" and 3: "save_results lib a path s2 = Normal st'"
    by blast
  have a: "text_of (files s1) (txt_file a path)
             = text_of (files st) (txt_file a path) @ pred_lines lib pred"
  proof (cases "is_nonempty pred")
    case True
    then obtain p where p: "pred = Some p" "0 < dict_len p"
      by (auto simp: is_nonempty_def split: option.splits)
    with 1 True have "process_pred lib a (path_str (txt_path a path)) p (st\<lparr>det_logs := []\<rparr>) = Normal s1"
      by simp
    from process_pred_text [OF this assms(2)] p show ?thesis
      by (simp add: txt_file_def pred_lines_def)
  next
    case False
    with 1 show ?thesis
      by (auto simp: pred_lines_def is_nonempty_def split: option.splits)
  qed
  from 2 have b: "files s2 = files s1" by (auto simp: print_done_def)
  from save_results_keeps [of "txt_file a path" a path lib s2] assms(3) 3
  have c: "files st' (txt_file a path) = files s2 (txt_file a path)" by auto
  from a b c show ?thesis by (simp add: text_of_def)
qed

lemma overlay_loop_text:
  assumes "save_txt a" and "\<not> save_img a \<or> img_file a path \<noteq> txt_file a path"
  shows "overlay_loop lib path t a dets st = Normal st'
     \<Longrightarrow> text_of (files st') (txt_file a path)
           = text_of (files st) (txt_file a path) @ concat (map (pred_lines lib) dets)"
proof (induction dets arbitrary: st)
  case Nil
  then show ?case by simp
next
  case (Cons pred dets)
  from Cons.prems obtain s1 where
    1: "overlay_pred lib path t a pred st = Normal s1" and
    2: "overlay_loop lib path t a dets s1 = Normal st'"
    by (auto simp: then_do_Normal_iff)
  from overlay_pred_text [OF 1 assms] Cons.IH [OF 2] show ?case by simp
qed

lemma extends_refl: "files t f = files s f \<Longrightarrow> extends f s t"
  by (simp add: extends_def text_of_def)

lemma extends_trans: "extends f x y \<Longrightarrow> extends f y z \<Longrightarrow> extends f x z"
  by (auto simp: extends_def)

lemma write_txt_extends: "extends f st (state_of (write_txt lib a tp xyxy c st))"
proof (cases "f = tp @ ''.txt'' \<and> save_txt a")
  case True
  then show ?thesis
    by (auto simp: extends_def write_txt_def Let_def text_of_append split: sum.splits)
next
  case False
  then show ?thesis by (intro extends_refl write_txt_keeps) auto
qed

lemma write_results_extends: "extends f st (state_of (write_results lib a tp dets st))"
proof (induction dets arbitrary: st)
  case Nil
  then show ?case by (simp add: extends_refl)
next
  case (Cons d dets)
  obtain xyxy conf c where d: "d = (xyxy, conf, c)" by (cases d) auto
  show ?case unfolding d write_results.simps
  proof (rule then_do_rel [where R = "extends f"])
    show "extends f st (state_of (then_do (write_txt lib a tp xyxy c st) (add_bbox lib a xyxy conf c)))"
    proof (rule then_do_rel [where R = "extends f"])
      show "extends f st (state_of (write_txt lib a tp xyxy c st))" by (rule write_txt_extends)
      show "\<And>s. extends f s (state_of (add_bbox lib a xyxy conf c s))"
        by (simp add: extends_refl add_bbox_files)
    qed (rule extends_trans)
    show "\<And>s. extends f s (state_of (write_results lib a tp dets s))" by (rule Cons.IH)
  qed (rule extends_trans)
qed

lemma process_pred_extends: "extends f st (state_of (process_pred lib a tp p st))"
proof -
  have "\<And>b s l logs. extends f st (state_of (write_results lib a tp (zip (tensor_round b) (zip s l))
          (st\<lparr>locals := Some (tensor_round b, s, l), det_logs := logs\<rparr>)))"
    using write_results_extends [of f "st\<lparr>locals := _, det_logs := _\<rparr>"]
    by (simp add: extends_def)
  then show ?thesis
    by (auto simp: process_pred_def Let_def extends_refl split: option.splits sum.splits)
qed

lemma overlay_pred_extends:
  assumes "\<not> save_img a \<or> img_file a path \<noteq> f"
  shows "extends f st (state_of (overlay_pred lib path t a pred st))"
proof -
  have "extends f (st\<lparr>det_logs := []\<rparr>) (state_of (overlay_pred lib path t a pred st))"
    unfolding overlay_pred_def Let_def
  proof (rule then_do_rel [where R = "extends f"])
    show "extends f (st\<lparr>det_logs := []\<rparr>)
      (state_of (then_do (case pred of None \<Rightarrow> Normal (st\<lparr>det_logs := []\<rparr>)
          | Some p \<Rightarrow> if 0 < dict_len p then process_pred lib a (path_str (txt_path a path)) p (st\<lparr>det_logs := []\<rparr>)
                      else Normal (st\<lparr>det_logs := []\<rparr>)) (print_done lib t)))"
    proof (rule then_do_rel [where R = "extends f"])
      show "extends f (st\<lparr>det_logs := []\<rparr>)
        (state_of (case pred of None \<Rightarrow> Normal (st\<lparr>det_logs := []\<rparr>)
          | Some p \<Rightarrow> if 0 < dict_len p then process_pred lib a (path_str (txt_path a path)) p (st\<lparr>det_logs := []\<rparr>)
                      else Normal (st\<lparr>det_logs := []\<rparr>)))"
        by (auto simp: process_pred_extends extends_refl split: option.splits)
      show "\<And>s. extends f s (state_of (print_done lib t s))"
        by (simp add: extends_refl print_done_files)
    qed (rule extends_trans)
    show "\<And>s. extends f s (state_of (save_results lib a path s))"
      using assms by (intro extends_refl save_results_keeps) auto
  qed (rule extends_trans)
  then show ?thesis by (simp add: extends_def)
qed

lemma overlay_loop_extends:
  assumes "\<not> save_img a \<or> img_file a path \<noteq> f"
  shows "extends f st (state_of (overlay_loop lib path t a dets st))"
proof (induction dets arbitrary: st)
  case Nil
  then show ?case by (simp add: extends_refl)
next
  case (Cons pred dets)
  show ?case unfolding overlay_loop.simps
  proof (rule then_do_rel [where R = "extends f"])
    show "extends f st (state_of (overlay_pred lib path t a pred st))"
      by (rule overlay_pred_extends [OF assms])
    show "\<And>s. extends f s (state_of (overlay_loop lib path t a dets s))" by (rule Cons.IH)
  qed (rule extends_trans)
qed

lemma round_half_even_int: "\<exists>k. round_half_even x = of_int k \<and> \<bar>x - of_int k\<bar> \<le> 1 / 2"
proof -
  define f where "f = \<lfloor>x\<rfloor>"
  have b: "of_int f \<le> x" "x < of_int f + 1" unfolding f_def by linarith+
  consider "x - of_int f < 1 / 2" | "1 / 2 < x - of_int f" | "x - of_int f = 1 / 2" by linarith
  then show ?thesis
  proof cases
    case 1
    then have "round_half_even x = of_int f" by (simp add: round_half_even_def f_def)
    moreover from 1 b have "\<bar>x - of_int f\<bar> \<le> 1 / 2" by simp
    ultimately show ?thesis by blast
  next
    case 2
    then have "round_half_even x = of_int (f + 1)" by (simp add: round_half_even_def f_def)
    moreover from 2 b have "\<bar>x - of_int (f + 1)\<bar> \<le> 1 / 2" by simp
    ultimately show ?thesis by blast
  next
    case 3
    then have "round_half_even x = of_int f \<or> round_half_even x = of_int (f + 1)"
      by (simp add: round_half_even_def f_def Let_def)
    moreover from 3 have "\<bar>x - of_int f\<bar> \<le> 1 / 2" "\<bar>x - of_int (f + 1)\<bar> \<le> 1 / 2" by simp_all
    ultimately show ?thesis by blast
  qed
qed

lemma no_LF_label_format:
  assumes "\<forall>x. LF \<notin> set (fmt lib ''%g'' x)"
  shows "count_list (label_format lib c xs) LF = 1"
proof -
  have "LF \<notin> set (concat (map (\<lambda>x. fmt lib ''%g'' x @ '' '') ys))" for ys
    using assms by auto
  then have "count_list (concat (map (\<lambda>x. fmt lib ''%g'' x @ '' '') ys)) LF = 0" for ys
    by (simp only: count_list_0_iff not_False_eq_True)
  from this [of "of_int c # xs"] show ?thesis
    unfolding label_format_def by (simp only: count_list_append) simp
qed

lemma count_label_lines:
  assumes "\<forall>x. LF \<notin> set (fmt lib ''%g'' x)"
  shows "count_list (label_lines lib dets) LF = length dets"
  by (induction dets) (auto simp: label_lines_def no_LF_label_format [OF assms])

text \<open>
  C4: with the save-text flag false, no file other than the image file changes; with the
  save-image flag false, no file other than the text file changes; with both false, the
  file system after the call is the one before it. This holds whether the call returns
  or raises.
\<close>

theorem C4_no_write_without_flag:
  "(\<not> save_txt a \<longrightarrow> (\<forall>q. q \<noteq> img_file a path \<longrightarrow> files (fst (overlay_boxes lib dets path t a fs)) q = fs q))
  \<and> (\<not> save_img a \<longrightarrow> (\<forall>q. q \<noteq> txt_file a path \<longrightarrow> files (fst (overlay_boxes lib dets path t a fs)) q = fs q))
  \<and> (\<not> save_txt a \<and> \<not> save_img a \<longrightarrow> files (fst (overlay_boxes lib dets path t a fs)) = fs)"
proof -
  have init: "files (initial_state lib path a fs) = fs" by (simp add: initial_state_def)
  have k: "\<And>q. q \<noteq> txt_file a path \<or> \<not> save_txt a \<Longrightarrow> q \<noteq> img_file a path \<or> \<not> save_img a
      \<Longrightarrow> files (fst (overlay_boxes lib dets path t a fs)) q = fs q"
    using overlay_loop_keeps [of _ a path lib t dets "initial_state lib path a fs"] init
    by (simp add: overlay_boxes_state)
  show ?thesis
    apply (intro conjI impI allI)
      apply (rule k; simp)
     apply (rule k; simp)
    apply (rule ext, rule k; simp)
    done
qed


theorem C4_no_write_without_flag_witness:
  "files (fst (overlay_boxes sample_lib [Some sample_pred] ''zidane.jpg'' (1 / 2)
       (sample_args\<lparr>save_txt := False\<rparr>) sample_fs)) ''out/zidane.txt''
     = sample_fs ''out/zidane.txt''
   \<and> files (fst (overlay_boxes sample_lib [Some sample_pred] ''zidane.jpg'' (1 / 2)
       (sample_args\<lparr>save_img := False\<rparr>) sample_fs)) ''out/zidane.jpg''
     = sample_fs ''out/zidane.jpg''
   \<and> files (fst (overlay_boxes sample_lib [Some sample_pred] ''zidane.jpg'' (1 / 2)
       (sample_args\<lparr>save_txt := False, save_img := False\<rparr>) sample_fs))
     = sample_fs"
proof -
  have 1: "\<not> save_txt (sample_args\<lparr>save_txt := False\<rparr>)"
    and 2: "\<not> save_img (sample_args\<lparr>save_img := False\<rparr>)"
    and 3: "\<not> save_txt (sample_args\<lparr>save_txt := False, save_img := False\<rparr>)
            \<and> \<not> save_img (sample_args\<lparr>save_txt := False, save_img := False\<rparr>)"
    by simp_all
  have p1: "''out/zidane.txt'' \<noteq> img_file (sample_args\<lparr>save_txt := False\<rparr>) ''zidane.jpg''"
    by code_simp
  have p2: "''out/zidane.jpg'' \<noteq> txt_file (sample_args\<lparr>save_img := False\<rparr>) ''zidane.jpg''"
    by code_simp
  from C4_no_write_without_flag
         [of "sample_args\<lparr>save_txt := False\<rparr>" "''zidane.jpg''" sample_lib "[Some sample_pred]" "1 / 2" sample_fs]
       1 p1
  have a: "files (fst (overlay_boxes sample_lib [Some sample_pred] ''zidane.jpg'' (1 / 2)
       (sample_args\<lparr>save_txt := False\<rparr>) sample_fs)) ''out/zidane.txt'' = sample_fs ''out/zidane.txt''"
    by blast
  from C4_no_write_without_flag
         [of "sample_args\<lparr>save_img := False\<rparr>" "''zidane.jpg''" sample_lib "[Some sample_pred]" "1 / 2" sample_fs]
       2 p2
  have b: "files (fst (overlay_boxes sample_lib [Some sample_pred] ''zidane.jpg'' (1 / 2)
       (sample_args\<lparr>save_img := False\<rparr>) sample_fs)) ''out/zidane.jpg'' = sample_fs ''out/zidane.jpg''"
    by blast
  from C4_no_write_without_flag
         [of "sample_args\<lparr>save_txt := False, save_img := False\<rparr>" "''zidane.jpg''" sample_lib
             "[Some sample_pred]" "1 / 2" sample_fs] 3
  have c: "files (fst (overlay_boxes sample_lib [Some sample_pred] ''zidane.jpg'' (1 / 2)
       (sample_args\<lparr>save_txt := False, save_img := False\<rparr>) sample_fs)) = sample_fs"
    by blast
  from a b c show ?thesis by simp
qed

text \<open>
  C2: with the save-text flag on, an iteration of the loop that completes on a prediction
  whose three tensors have the same length appends exactly as many lines to the text file
  as the prediction has boxes. The image write of the iteration must not go to the text
  file itself, and a formatted number holds no line break.
\<close>

theorem C2_one_line_per_detection:
  assumes "save_txt a"
    and "\<not> save_img a \<or> img_file a path \<noteq> txt_file a path"
    and "\<forall>x. LF \<notin> set (fmt lib ''%g'' x)"
    and "overlay_pred lib path t a (Some p) st = Normal st'"
    and "boxes p = Some b" and "scores p = Some s" and "labels p = Some l"
    and "length s = length b" and "length l = length b"
  shows "count_list (text_of (files st') (txt_file a path)) LF
           = count_list (text_of (files st) (txt_file a path)) LF + length b"
proof -
  have ne: "0 < dict_len p" using assms(5) by (simp add: dict_len_def)
  have "length (detections_of p) = length b"
    using assms(5-9) by (simp add: detections_of_def tensor_round_def)
  with overlay_pred_text [OF assms(4) assms(1) assms(2)] ne count_label_lines [OF assms(3)]
  show ?thesis by (simp add: pred_lines_def)
qed

theorem C2_one_line_per_detection_witness:
  "count_list (text_of (files (state_of (overlay_pred sample_lib ''zidane.jpg'' (1 / 2) sample_args
       (Some sample_pred) (initial_state sample_lib ''zidane.jpg'' sample_args sample_fs))))
     ''out/zidane.txt'') LF = 1 + 3"
proof -
  let ?st = "initial_state sample_lib ''zidane.jpg'' sample_args sample_fs"
  let ?out = "overlay_pred sample_lib ''zidane.jpg'' (1 / 2) sample_args (Some sample_pred) ?st"
  have n: "?out = Normal (state_of ?out)" by (rule completes_Normal) code_simp
  have h1: "save_txt sample_args" by (simp add: sample_args_def)
  have h2: "\<not> save_img sample_args
              \<or> img_file sample_args ''zidane.jpg'' \<noteq> txt_file sample_args ''zidane.jpg''"
    by code_simp
  have k: "boxes sample_pred = Some [(1 / 2, 3 / 2, 10, 20), (5 / 2, 0, 7, 9), (0, 0, 3, 3)]"
    "scores sample_pred = Some [1 / 2, 1 / 2, 1 / 2]" "labels sample_pred = Some [1, 0, 1]"
    by (simp_all add: sample_pred_def)
  have f: "txt_file sample_args ''zidane.jpg'' = ''out/zidane.txt''" by code_simp
  have c: "count_list (text_of (files ?st) ''out/zidane.txt'') LF = 1" by code_simp
  from C2_one_line_per_detection [OF h1 h2 sample_fmt_no_LF n k] f c show ?thesis by simp
qed

lemma label_lines_explicit:
  "label_lines lib (zip (tensor_round b) (zip s l))
     = concat (map (\<lambda>((x1, y1, x2, y2), conf, cls_name).
         fmt lib ''%g'' (of_int cls_name) @ '' '' @
         fmt lib ''%g'' ((round_half_even x1 + round_half_even x2) / 2) @ '' '' @
         fmt lib ''%g'' ((round_half_even y1 + round_half_even y2) / 2) @ '' '' @
         fmt lib ''%g'' (round_half_even x2 - round_half_even x1) @ '' '' @
         fmt lib ''%g'' (round_half_even y2 - round_half_even y1) @ '' '' @ [LF])
       (zip b (zip s l)))"
proof -
  have "zip (tensor_round b) ys
          = map (\<lambda>((x1, y1, x2, y2), y).
              ((round_half_even x1, round_half_even y1, round_half_even x2, round_half_even y2), y))
            (zip b ys)" for ys :: "(rat \<times> int) list"
    by (simp add: tensor_round_def zip_map1 split_def)
  then show ?thesis
    by (simp add: label_lines_def label_format_def box_convert_def split_def comp_def)
qed

text \<open>
  C3: with the save-text flag on, the text appended for a prediction is, for each
  detection in order, one line of five numbers each followed by a blank: the class id,
  then the midpoints of the rounded corners in x and in y, then the differences of the
  rounded corners in x and in y.
\<close>

theorem C3_label_line_fields:
  assumes "save_txt a" and "process_pred lib a tp p st = Normal st'"
    and "boxes p = Some b" and "scores p = Some s" and "labels p = Some l"
  shows "text_of (files st') (tp @ ''.txt'')
           = text_of (files st) (tp @ ''.txt'') @
     concat (map (\<lambda>((x1, y1, x2, y2), conf, cls_name).
         fmt lib ''%g'' (of_int cls_name) @ '' '' @
         fmt lib ''%g'' ((round_half_even x1 + round_half_even x2) / 2) @ '' '' @
         fmt lib ''%g'' ((round_half_even y1 + round_half_even y2) / 2) @ '' '' @
         fmt lib ''%g'' (round_half_even x2 - round_half_even x1) @ '' '' @
         fmt lib ''%g'' (round_half_even y2 - round_half_even y1) @ '' '' @ [LF])
       (zip b (zip s l)))"
  using process_pred_text [OF assms(2) assms(1)] assms(3-5) label_lines_explicit [of lib b s l]
  by (simp add: detections_of_def)

theorem C3_label_line_fields_witness:
  "text_of (files (state_of (process_pred sample_lib sample_args ''out/zidane'' sample_pred
       (initial_state sample_lib ''zidane.jpg'' sample_args sample_fs)))) ''out/zidane.txt''
   = ''0 1 1 2 2 '' @ [LF] @ ''1 5 11 10 18 '' @ [LF] @ ''0 4.5 4.5 5 9 '' @ [LF]
       @ ''1 1.5 1.5 3 3 '' @ [LF]"
proof -
  let ?st = "initial_state sample_lib ''zidane.jpg'' sample_args sample_fs"
  let ?out = "process_pred sample_lib sample_args ''out/zidane'' sample_pred ?st"
  have n: "?out = Normal (state_of ?out)" by (rule completes_Normal) code_simp
  have h1: "save_txt sample_args" by (simp add: sample_args_def)
  have k: "boxes sample_pred = Some [(1 / 2, 3 / 2, 10, 20), (5 / 2, 0, 7, 9), (0, 0, 3, 3)]"
    "scores sample_pred = Some [1 / 2, 1 / 2, 1 / 2]" "labels sample_pred = Some [1, 0, 1]"
    by (simp_all add: sample_pred_def)
  have old: "text_of (files ?st) ''out/zidane.txt'' = ''0 1 1 2 2 '' @ [LF]" by code_simp
  have new: "concat (map (\<lambda>((x1, y1, x2, y2), conf, cls_name).
         fmt sample_lib ''%g'' (of_int cls_name) @ '' '' @
         fmt sample_lib ''%g'' ((round_half_even x1 + round_half_even x2) / 2) @ '' '' @
         fmt sample_lib ''%g'' ((round_half_even y1 + round_half_even y2) / 2) @ '' '' @
         fmt sample_lib ''%g'' (round_half_even x2 - round_half_even x1) @ '' '' @
         fmt sample_lib ''%g'' (round_half_even y2 - round_half_even y1) @ '' '' @ [LF])
       (zip [(1 / 2, 3 / 2, 10, 20), (5 / 2, 0, 7, 9), (0, 0, 3, 3)]
          (zip [1 / 2, 1 / 2, 1 / 2] [1, 0, 1])))
     = ''1 5 11 10 18 '' @ [LF] @ ''0 4.5 4.5 5 9 '' @ [LF] @ ''1 1.5 1.5 3 3 '' @ [LF]"
    by code_simp
  from C3_label_line_fields [OF h1 n k] old new show ?thesis by simp
qed

text \<open>
  C9: with the save-text flag on (and the image file, if written, another file), the text
  file after the call starts with the content it had before, whether the call returns or
  raises; when the call returns, what follows is the label lines of all detections, in
  the order of the predictions and of the detections in each.
\<close>

theorem C9_append_preserves_content:
  assumes "save_txt a" and "\<not> save_img a \<or> img_file a path \<noteq> txt_file a path"
  shows "(\<exists>w. text_of (files (fst (overlay_boxes lib dets path t a fs))) (txt_file a path)
               = text_of fs (txt_file a path) @ w)
       \<and> (\<forall>r. snd (overlay_boxes lib dets path t a fs) = Inr r \<longrightarrow>
            text_of (files (fst (overlay_boxes lib dets path t a fs))) (txt_file a path)
               = text_of fs (txt_file a path) @ concat (map (pred_lines lib) dets))"
proof -
  let ?st0 = "initial_state lib path a fs :: 'a state"
  have init: "files ?st0 = fs" by (simp add: initial_state_def)
  have 1: "\<exists>w. text_of (files (fst (overlay_boxes lib dets path t a fs))) (txt_file a path)
               = text_of fs (txt_file a path) @ w"
    using overlay_loop_extends [OF assms(2), of ?st0 lib t dets] init
    by (simp add: overlay_boxes_state extends_def)
  have 2: "text_of (files (fst (overlay_boxes lib dets path t a fs))) (txt_file a path)
               = text_of fs (txt_file a path) @ concat (map (pred_lines lib) dets)"
    if "snd (overlay_boxes lib dets path t a fs) = Inr r" for r
  proof -
    from that obtain st' where n: "overlay_loop lib path t a dets ?st0 = Normal st'"
      by (auto simp: overlay_boxes_def split: outcome.splits option.splits)
    from overlay_loop_text [OF assms n] n init show ?thesis
      by (simp add: overlay_boxes_state)
  qed
  from 1 2 show ?thesis by blast
qed

theorem C9_append_preserves_content_witness:
  "text_of (files (fst (overlay_boxes sample_lib [Some sample_pred, None, Some sample_pred]
       ''zidane.jpg'' (1 / 2) sample_args sample_fs))) ''out/zidane.txt''
   = ''0 1 1 2 2 '' @ [LF]
     @ ''1 5 11 10 18 '' @ [LF] @ ''0 4.5 4.5 5 9 '' @ [LF] @ ''1 1.5 1.5 3 3 '' @ [LF]
     @ ''1 5 11 10 18 '' @ [LF] @ ''0 4.5 4.5 5 9 '' @ [LF] @ ''1 1.5 1.5 3 3 '' @ [LF]"
proof -
  let ?d = "[Some sample_pred, None, Some sample_pred]"
  let ?R = "overlay_boxes sample_lib ?d ''zidane.jpg'' (1 / 2) sample_args sample_fs"
  have h1: "save_txt sample_args" by (simp add: sample_args_def)
  have h2: "\<not> save_img sample_args
              \<or> img_file sample_args ''zidane.jpg'' \<noteq> txt_file sample_args ''zidane.jpg''"
    by code_simp
  have r: "snd ?R = Inr ([(0, 2, 10, 20), (2, 0, 7, 9), (0, 0, 3, 3)], [1 / 2, 1 / 2, 1 / 2], [1, 0, 1])"
    by code_simp
  have f: "txt_file sample_args ''zidane.jpg'' = ''out/zidane.txt''" by code_simp
  have old: "text_of sample_fs ''out/zidane.txt'' = ''0 1 1 2 2 '' @ [LF]" by code_simp
  have new: "concat (map (pred_lines sample_lib) ?d)
     = ''1 5 11 10 18 '' @ [LF] @ ''0 4.5 4.5 5 9 '' @ [LF] @ ''1 1.5 1.5 3 3 '' @ [LF]
     @ ''1 5 11 10 18 '' @ [LF] @ ''0 4.5 4.5 5 9 '' @ [LF] @ ''1 1.5 1.5 3 3 '' @ [LF]"
    by code_simp
  from C9_append_preserves_content [OF h1 h2, of sample_lib ?d "1 / 2" sample_fs] r
  have "text_of (files (fst ?R)) (txt_file sample_args ''zidane.jpg'')
          = text_of sample_fs (txt_file sample_args ''zidane.jpg'') @ concat (map (pred_lines sample_lib) ?d)"
    by blast
  with f old new show ?thesis by simp
qed

text \<open>
  C10: with a non-empty colour list the colour lookup succeeds for every class id, at the
  index \<open>cls_name mod len(colors)\<close>, which is within bounds; the name lookup of the same
  id is not guarded and raises for an id beyond the name table.
\<close>

theorem C10_color_lookup_in_bounds:
  assumes "colors a \<noteq> []"
  shows "(\<exists>col. color_lookup a cls_name = Inr col \<and> col \<in> set (colors a)
            \<and> col = colors a ! nat (cls_name mod int (length (colors a)))
            \<and> nat (cls_name mod int (length (colors a))) < length (colors a))
       \<and> (int (length (names a)) \<le> cls_name \<longrightarrow> name_lookup a cls_name = Inl IndexError)"
proof -
  let ?n = "int (length (colors a))"
  from assms have pos: "0 < ?n" by simp
  then have m: "0 \<le> cls_name mod ?n" "cls_name mod ?n < ?n" by simp_all
  then have "nat (cls_name mod ?n) < length (colors a)" by linarith
  with m show ?thesis
    using assms by (auto simp: color_lookup_def name_lookup_def py_index_def)
qed


theorem C10_color_lookup_in_bounds_witness:
  "color_lookup sample_args 5 = Inr [0, 255, 0] \<and> name_lookup sample_args 5 = Inl IndexError"
proof -
  have h: "colors sample_args \<noteq> []" by (simp add: sample_args_def)
  have g: "int (length (names sample_args)) \<le> 5" by (simp add: sample_args_def)
  have c: "colors sample_args ! nat (5 mod int (length (colors sample_args))) = [0, 255, 0]"
    by code_simp
  from C10_color_lookup_in_bounds [OF h, of 5] g c show ?thesis by auto
qed

lemma same_vars_trans: "same_vars x y \<Longrightarrow> same_vars y z \<Longrightarrow> same_vars x z"
  by (simp add: same_vars_def)

lemma write_txt_same_vars: "same_vars st (state_of (write_txt lib a tp xyxy c st))"
  by (auto simp: same_vars_def write_txt_def Let_def split: sum.splits)

lemma add_bbox_same_vars: "same_vars st (state_of (add_bbox lib a xyxy conf c st))"
  by (auto simp: same_vars_def add_bbox_def Let_def split: sum.splits)

lemma write_results_same_vars: "same_vars st (state_of (write_results lib a tp dets st))"
proof (induction dets arbitrary: st)
  case Nil
  then show ?case by (simp add: same_vars_def)
next
  case (Cons d dets)
  obtain xyxy conf c where d: "d = (xyxy, conf, c)" by (cases d) auto
  show ?case unfolding d write_results.simps
  proof (rule then_do_rel [where R = same_vars])
    show "same_vars st (state_of (then_do (write_txt lib a tp xyxy c st) (add_bbox lib a xyxy conf c)))"
    proof (rule then_do_rel [where R = same_vars])
      show "same_vars st (state_of (write_txt lib a tp xyxy c st))" by (rule write_txt_same_vars)
      show "\<And>s. same_vars s (state_of (add_bbox lib a xyxy conf c s))" by (rule add_bbox_same_vars)
    qed (rule same_vars_trans)
    show "\<And>s. same_vars s (state_of (write_results lib a tp dets s))" by (rule Cons.IH)
  qed (rule same_vars_trans)
qed

lemma summary_loop_Inr:
  "summary_loop lib a l cs logs = Inr out \<Longrightarrow>
     \<exists>nms. map (name_lookup a) cs = map Inr nms
        \<and> out = logs @ concat (map2 (\<lambda>c nm. fmt lib ''%g'' (of_nat (count_list l c)) @ '' '' @ nm @ ''s, '') cs nms)"
proof (induction cs arbitrary: logs)
  case Nil
  then show ?case by simp
next
  case (Cons c cs)
  from Cons.prems obtain nm where nm: "py_index (names a) c = Inr nm"
    and rest: "summary_loop lib a l cs (logs @ fmt lib ''%g'' (of_nat (count_list l c)) @ '' '' @ nm @ ''s, '') = Inr out"
    by (auto simp: Let_def split: sum.splits)
  from Cons.IH [OF rest] obtain nms where
    "map (name_lookup a) cs = map Inr nms"
    "out = (logs @ fmt lib ''%g'' (of_nat (count_list l c)) @ '' '' @ nm @ ''s, '')
            @ concat (map2 (\<lambda>c nm. fmt lib ''%g'' (of_nat (count_list l c)) @ '' '' @ nm @ ''s, '') cs nms)"
    by blast
  moreover from nm have "name_lookup a c = Inr nm" by (simp add: name_lookup_def)
  ultimately show ?case
    by (intro exI [of _ "nm # nms"]) simp
qed

lemma unique_distinct: "distinct (unique l) \<and> sorted (unique l) \<and> set (unique l) = set l"
  by (simp add: unique_def)

text \<open>
  C5: when an iteration completes on a prediction with labels, the line it prints is, for
  each distinct label of the prediction exactly once (in ascending order), the entry
  \<open>count name\<close>\<^verbatim>\<open>s, \<close> where the count is the number of detections that carry the label
  and the name is the entry of the name table at the label, followed by the elapsed
  time.
\<close>

theorem C5_summary_counts_per_label:
  assumes "overlay_pred lib path t a (Some p) st = Normal st'" and "labels p = Some l"
  shows "(\<exists>nms. map (name_lookup a) (unique l) = map Inr nms
           \<and> stdout st' = stdout st @
               [concat (map2 (\<lambda>c nm. fmt lib ''%g'' (of_nat (count_list l c)) @ '' '' @ nm @ ''s, '')
                          (unique l) nms)
                @ ''Done. ('' @ fmt lib ''%.3f'' t @ ''s)''])
       \<and> distinct (unique l) \<and> set (unique l) = set l"
proof -
  have ne: "is_nonempty (Some p)" using assms(2) by (simp add: is_nonempty_def dict_len_def)
  from overlay_pred_Normal [OF assms(1)] ne obtain s1 s2 where
    1: "process_pred lib a (path_str (txt_path a path)) p (st\<lparr>det_logs := []\<rparr>) = Normal s1" and
    2: "print_done lib t s1 = Normal s2" and 3: "save_results lib a path s2 = Normal st'"
    by auto
  from process_pred_Normal [OF 1] assms(2) obtain b s logs where
    sl: "summary_loop lib a l (unique l) [] = Inr logs" and
    w: "write_results lib a (path_str (txt_path a path)) (zip (tensor_round b) (zip s l))
          (st\<lparr>det_logs := [], locals := Some (tensor_round b, s, l), det_logs := logs\<rparr>) = Normal s1"
    by auto
  from write_results_same_vars
         [where st = "st\<lparr>det_logs := [], locals := Some (tensor_round b, s, l), det_logs := logs\<rparr>",
          of lib a "path_str (txt_path a path)" "zip (tensor_round b) (zip s l)"] w
  have v: "stdout s1 = stdout st" "det_logs s1 = logs"
    by (simp_all add: same_vars_def)
  from 2 have p2: "s2 = s1\<lparr>stdout := stdout s1 @ [det_logs s1 @ ''Done. ('' @ fmt lib ''%.3f'' t @ ''s)'']\<rparr>"
    by (simp add: print_done_def)
  from 3 have "stdout st' = stdout s2"
    by (auto simp: save_results_def split: if_splits sum.splits)
  with p2 v have out: "stdout st' = stdout st @ [logs @ ''Done. ('' @ fmt lib ''%.3f'' t @ ''s)'']"
    by simp
  from summary_loop_Inr [OF sl] out unique_distinct [of l] show ?thesis by auto
qed

theorem C5_summary_counts_per_label_witness:
  "stdout (state_of (overlay_pred sample_lib ''zidane.jpg'' (1 / 2) sample_args
       (Some sample_pred) (initial_state sample_lib ''zidane.jpg'' sample_args sample_fs)))
   = [''1 persons, 2 ties, Done. (0.5s)'']"
proof -
  let ?st = "initial_state sample_lib ''zidane.jpg'' sample_args sample_fs"
  let ?out = "overlay_pred sample_lib ''zidane.jpg'' (1 / 2) sample_args (Some sample_pred) ?st"
  have n: "?out = Normal (state_of ?out)" by (rule completes_Normal) code_simp
  have k: "labels sample_pred = Some [1, 0, 1]" by (simp add: sample_pred_def)
  have u: "unique [1, 0, 1] = [0, 1]" by code_simp
  have l: "map (name_lookup sample_args) [0, 1] = [Inr ''person'', Inr ''tie'']" by code_simp
  have o: "stdout ?st = []" by (simp add: initial_state_def)
  have e: "concat (map2 (\<lambda>c nm. fmt sample_lib ''%g'' (of_nat (count_list [1, 0, 1 :: int] c)) @ '' '' @ nm @ ''s, '')
              [0, 1] [''person'', ''tie'']) @ ''Done. ('' @ fmt sample_lib ''%.3f'' (1 / 2) @ ''s)''
           = ''1 persons, 2 ties, Done. (0.5s)''"
    by code_simp
  from C5_summary_counts_per_label [OF n k] obtain nms where
    a: "map (name_lookup sample_args) (unique [1, 0, 1]) = map Inr nms" and
    b: "stdout (state_of ?out) = stdout ?st @
          [concat (map2 (\<lambda>c nm. fmt sample_lib ''%g'' (of_nat (count_list [1, 0, 1] c)) @ '' '' @ nm @ ''s, '')
                     (unique [1, 0, 1]) nms)
           @ ''Done. ('' @ fmt sample_lib ''%.3f'' (1 / 2) @ ''s)'']"
    by blast
  from a u l have "nms = [''person'', ''tie'']" by (auto simp: map_eq_Cons_conv)
  with b u o e show ?thesis by simp
qed



















lemma overlay_pred_locals:
  assumes "overlay_pred lib path t a pred st = Normal st'"
  shows "locals st' = (if is_nonempty pred then bound_by pred else locals st)"
    and "is_nonempty pred \<Longrightarrow> bound_by pred \<noteq> None"
proof -
  from overlay_pred_Normal [OF assms] obtain s1 s2 where
    1: "(if is_nonempty pred
         then process_pred lib a (path_str (txt_path a path)) (the pred) (st\<lparr>det_logs := []\<rparr>)
         else Normal (st\<lparr>det_logs := []\<rparr>)) = Normal s1" and
    2: "print_done lib t s1 = Normal s2" and 3: "save_results lib a path s2 = Normal st'"
    by blast
  from 2 have l2: "locals s2 = locals s1" by (auto simp: print_done_def)
  from 3 have l3: "locals st' = locals s2"
    by (auto simp: save_results_def split: if_splits sum.splits)
  have "locals s1 = (if is_nonempty pred then bound_by pred else locals st)
        \<and> (is_nonempty pred \<longrightarrow> bound_by pred \<noteq> None)"
  proof (cases "is_nonempty pred")
    case True
    then obtain p where p: "pred = Some p" by (auto simp: is_nonempty_def split: option.splits)
    with 1 True have "process_pred lib a (path_str (txt_path a path)) p (st\<lparr>det_logs := []\<rparr>) = Normal s1"
      by simp
    from process_pred_Normal [OF this] obtain b s l logs where
      k: "boxes p = Some b" "scores p = Some s" "labels p = Some l" and
      w: "write_results lib a (path_str (txt_path a path)) (zip (tensor_round b) (zip s l))
            (st\<lparr>det_logs := [], locals := Some (tensor_round b, s, l), det_logs := logs\<rparr>) = Normal s1"
      by blast
    from write_results_same_vars
           [where st = "st\<lparr>det_logs := [], locals := Some (tensor_round b, s, l), det_logs := logs\<rparr>",
            of lib a "path_str (txt_path a path)" "zip (tensor_round b) (zip s l)"] w
    have "locals s1 = Some (tensor_round b, s, l)" by (simp add: same_vars_def)
    with True p k show ?thesis by (simp add: bound_by_def)
  next
    case False
    with 1 show ?thesis by auto
  qed
  with l2 l3 show "locals st' = (if is_nonempty pred then bound_by pred else locals st)"
    and "is_nonempty pred \<Longrightarrow> bound_by pred \<noteq> None" by simp_all
qed

lemma overlay_loop_locals:
  "overlay_loop lib path t a dets st = Normal st' \<Longrightarrow>
     (filter is_nonempty dets = [] \<longrightarrow> locals st' = locals st)
   \<and> (filter is_nonempty dets \<noteq> [] \<longrightarrow>
        locals st' = bound_by (last (filter is_nonempty dets))
        \<and> bound_by (last (filter is_nonempty dets)) \<noteq> None)"
proof (induction dets arbitrary: st)
  case Nil
  then show ?case by simp
next
  case (Cons pred dets)
  from Cons.prems obtain s1 where
    1: "overlay_pred lib path t a pred st = Normal s1" and
    2: "overlay_loop lib path t a dets s1 = Normal st'"
    by (auto simp: then_do_Normal_iff)
  from overlay_pred_locals [OF 1] Cons.IH [OF 2] show ?case by auto
qed

lemma overlay_pred_empty_Raised:
  assumes "\<not> is_nonempty pred" and "overlay_pred lib path t a pred st = Raised e st'"
  shows "e = Cv2Error \<and> save_img a"
  using assms
  by (auto simp: overlay_pred_def Let_def is_nonempty_def print_done_def save_results_def
        imwrite_def split: option.splits if_splits sum.splits node.splits)

lemma overlay_loop_empty_Raised:
  assumes "\<forall>pred\<in>set dets. \<not> is_nonempty pred"
  shows "overlay_loop lib path t a dets st = Raised e st' \<Longrightarrow> e = Cv2Error \<and> save_img a"
  using assms
proof (induction dets arbitrary: st)
  case Nil
  then show ?case by simp
next
  case (Cons pred dets)
  show ?case
  proof (cases "overlay_pred lib path t a pred st")
    case (Normal s1)
    with Cons.prems have "overlay_loop lib path t a dets s1 = Raised e st'" by simp
    from Cons.IH [OF this] Cons.prems(2) show ?thesis by simp
  next
    case (Raised e1 s1)
    with Cons.prems have "e1 = e" by simp
    with Raised overlay_pred_empty_Raised [of pred lib path t a st e s1] Cons.prems(2)
    show ?thesis by simp
  qed
qed

text \<open>
  A prediction with the three keys and no detection is not empty for the test of the
  loop: the call returns three empty lists.
\<close>

lemma zero_detections_returns:
  "snd (overlay_boxes lib [Some \<lparr>boxes = Some [], scores = Some [], labels = Some []\<rparr>]
          path t (a\<lparr>save_img := False\<rparr>) fs) = Inr ([], [], [])"
  by (simp add: overlay_boxes_def overlay_pred_def process_pred_def dict_len_def unique_def
        tensor_round_def print_done_def save_results_def initial_state_def)

text \<open>
  C8 (as stated): when every prediction is \<^verbatim>\<open>None\<close> or empty the error comes from the
  return statement. It fails with the save-image flag on and an input that is no readable
  image: the only prediction is \<^verbatim>\<open>None\<close>, and the call raises the error of
  \<^verbatim>\<open>cv2.imwrite\<close> in the first iteration, before the return statement is reached.
\<close>

theorem C8_image_write_raises_first_counterexample:
  "\<not> is_nonempty None
   \<and> snd (overlay_boxes sample_lib [None] ''missing.jpg'' (1 / 2) sample_args sample_fs)
       = Inl Cv2Error
   \<and> Cv2Error \<noteq> UnboundLocalError"
  by code_simp

text \<open>
  C8 (amended): when every prediction is \<^verbatim>\<open>None\<close> or has length zero, the call never
  returns a value: it raises \<^verbatim>\<open>UnboundLocalError\<close> at its return statement, unless the
  image write of an iteration has raised before that (which needs the save-image flag).
  When the call returns, some prediction is non-empty, and the value is the rounded
  boxes, the scores and the labels of the last non-empty one.
\<close>

theorem C8_unbound_unless_nonempty_pred:
  "((\<forall>pred\<in>set dets. \<not> is_nonempty pred) \<longrightarrow>
       snd (overlay_boxes lib dets path t a fs) = Inl UnboundLocalError
     \<or> (save_img a \<and> snd (overlay_boxes lib dets path t a fs) = Inl Cv2Error))
   \<and> (\<forall>r. snd (overlay_boxes lib dets path t a fs) = Inr r \<longrightarrow>
        filter is_nonempty dets \<noteq> []
      \<and> (\<exists>p b s l. last (filter is_nonempty dets) = Some p \<and> boxes p = Some b
            \<and> scores p = Some s \<and> labels p = Some l \<and> r = (tensor_round b, s, l)))"
proof -
  let ?st0 = "initial_state lib path a fs :: 'a state"
  let ?R = "overlay_boxes lib dets path t a fs"
  have l0: "locals ?st0 = None" by (simp add: initial_state_def)
  have 1: "snd ?R = Inl UnboundLocalError \<or> (save_img a \<and> snd ?R = Inl Cv2Error)"
    if e: "\<forall>pred\<in>set dets. \<not> is_nonempty pred"
  proof (cases "overlay_loop lib path t a dets ?st0")
    case (Normal st')
    from e have "filter is_nonempty dets = []" by (simp add: filter_empty_conv)
    with overlay_loop_locals [OF Normal] l0 have "locals st' = None" by simp
    with Normal show ?thesis by (simp add: overlay_boxes_def)
  next
    case (Raised e1 st')
    from overlay_loop_empty_Raised [OF e Raised] Raised show ?thesis
      by (simp add: overlay_boxes_def)
  qed
  have 2: "filter is_nonempty dets \<noteq> []
      \<and> (\<exists>p b s l. last (filter is_nonempty dets) = Some p \<and> boxes p = Some b
            \<and> scores p = Some s \<and> labels p = Some l \<and> r = (tensor_round b, s, l))"
    if r: "snd ?R = Inr r" for r
  proof -
    from r obtain st' where n: "overlay_loop lib path t a dets ?st0 = Normal st'"
      and lr: "locals st' = Some r"
      by (auto simp: overlay_boxes_def split: outcome.splits option.splits)
    from overlay_loop_locals [OF n] l0 lr have ne: "filter is_nonempty dets \<noteq> []"
      and b: "bound_by (last (filter is_nonempty dets)) = Some r" by auto
    from b have "\<exists>p b s l. last (filter is_nonempty dets) = Some p \<and> boxes p = Some b
            \<and> scores p = Some s \<and> labels p = Some l \<and> r = (tensor_round b, s, l)"
      by (auto simp: bound_by_def split: option.splits)
    with ne show ?thesis by simp
  qed
  from 1 2 show ?thesis by blast
qed


theorem C8_unbound_unless_nonempty_pred_witness:
  "snd (overlay_boxes sample_lib [None, Some \<lparr>boxes = None, scores = None, labels = None\<rparr>]
          ''zidane.jpg'' (1 / 2) (sample_args\<lparr>save_img := False\<rparr>) sample_fs)
     = Inl UnboundLocalError
   \<and> snd (overlay_boxes sample_lib [Some sample_pred, None] ''zidane.jpg'' (1 / 2) sample_args sample_fs)
     = Inr ([(0, 2, 10, 20), (2, 0, 7, 9), (0, 0, 3, 3)], [1 / 2, 1 / 2, 1 / 2], [1, 0, 1])
   \<and> filter is_nonempty [Some sample_pred, None] \<noteq> []
   \<and> ([(0, 2, 10, 20), (2, 0, 7, 9), (0, 0, 3, 3)], [1 / 2, 1 / 2, 1 / 2], [1, 0, 1])
       = (tensor_round [(1 / 2, 3 / 2, 10, 20), (5 / 2, 0, 7, 9), (0, 0, 3, 3)],
          [1 / 2, 1 / 2, 1 / 2], [1, 0, 1])"
proof -
  let ?e = "[None, Some \<lparr>boxes = None, scores = None, labels = None\<rparr>]"
  let ?a = "sample_args\<lparr>save_img := False\<rparr>"
  let ?r = "([(0, 2, 10, 20), (2, 0, 7, 9), (0, 0, 3, 3)], [1 / 2, 1 / 2, 1 / 2], [1, 0, 1])
              :: box list \<times> rat list \<times> int list"
  have e: "\<forall>pred\<in>set ?e. \<not> is_nonempty pred" by (simp add: is_nonempty_def dict_len_def)
  have ns: "\<not> save_img ?a" by simp
  from C8_unbound_unless_nonempty_pred [of ?e sample_lib "''zidane.jpg''" "1 / 2" ?a sample_fs] e ns
  have 1: "snd (overlay_boxes sample_lib ?e ''zidane.jpg'' (1 / 2) ?a sample_fs) = Inl UnboundLocalError"
    by blast
  have r: "snd (overlay_boxes sample_lib [Some sample_pred, None] ''zidane.jpg'' (1 / 2) sample_args sample_fs)
             = Inr ?r"
    by code_simp
  have la: "last (filter is_nonempty [Some sample_pred, None]) = Some sample_pred" by code_simp
  have k: "boxes sample_pred = Some [(1 / 2, 3 / 2, 10, 20), (5 / 2, 0, 7, 9), (0, 0, 3, 3)]"
    "scores sample_pred = Some [1 / 2, 1 / 2, 1 / 2]" "labels sample_pred = Some [1, 0, 1]"
    by (simp_all add: sample_pred_def)
  from C8_unbound_unless_nonempty_pred
         [of "[Some sample_pred, None]" sample_lib "''zidane.jpg''" "1 / 2" sample_args sample_fs] r
  have 2: "filter is_nonempty [Some sample_pred, None] \<noteq> []"
    and "\<exists>p b s l. last (filter is_nonempty [Some sample_pred, None]) = Some p \<and> boxes p = Some b
            \<and> scores p = Some s \<and> labels p = Some l \<and> ?r = (tensor_round b, s, l)"
    by blast+
  with la k have 3: "?r = (tensor_round [(1 / 2, 3 / 2, 10, 20), (5 / 2, 0, 7, 9), (0, 0, 3, 3)],
          [1 / 2, 1 / 2, 1 / 2], [1, 0, 1])"
    by auto
  from 1 r 2 3 show ?thesis by blast
qed

end
